theory Spec2Isabelle
  imports
    Complex_Main
    "HOL-Library.AList"
    "HOL-Library.Char_ord"
    "HOL-Library.List_Lexorder"
    "HOL-Library.Sublist"
begin

section \<open>The resilience and streaming layer of fusion\_client\<close>

text \<open>
  This theory embeds \<^verbatim>\<open>fusion_client/utils/retry.py\<close>, \<^verbatim>\<open>utils/cache.py\<close>,
  \<^verbatim>\<open>utils/streaming.py\<close> and the class hierarchy of \<^verbatim>\<open>core/exceptions.py\<close>.

  Conventions of the embedding.
  \<^item> Python floats (clock readings, time-outs, delays) are real numbers; no claim below
    depends on rounding.
  \<^item> Every call of \<^verbatim>\<open>time.time()\<close> is an explicit argument of the function that makes it,
    in the order of the calls.
  \<^item> A raised exception is the \<open>Inl\<close> branch of a sum; a coroutine that stays suspended
    (or a loop that does not end) is the value \<open>None\<close>.
  \<^item> A \<^verbatim>\<open>dict\<close> is an association list with distinct keys in insertion order:
    \<open>AList.update\<close> overwrites in place or appends, as assignment to a key does, and
    \<open>AList.delete\<close> is \<^verbatim>\<open>pop(key, None)\<close>.
  \<^item> A \<^verbatim>\<open>str\<close> is the list of the bytes of its UTF-8 encoding; \<^verbatim>\<open>bytes.decode('utf-8')\<close>
    is then the check that the bytes are well-formed UTF-8.
\<close>

subsection \<open>Exceptions (\<^verbatim>\<open>core/exceptions.py\<close> and the built-ins the code raises)\<close>

datatype exc_class =
    BaseException
  | Exception
  | CancelledError
  | ValueError
  | TypeError
  | IndexError
  | FusionError
  | AuthenticationError
  | AuthorizationError
  | RateLimitError
  | AgentNotFoundError
  | ChatNotFoundError
  | ValidationError
  | NetworkError
  | ServerError
  | TimeoutError
  | FileTooLargeError
  | UnsupportedFileTypeError

text \<open>The method resolution order of each class: itself, then its base classes upwards.\<close>

fun mro :: "exc_class \<Rightarrow> exc_class list" where
  "mro BaseException = [BaseException]"
| "mro Exception = [Exception, BaseException]"
| "mro CancelledError = [CancelledError, BaseException]"
| "mro ValueError = [ValueError, Exception, BaseException]"
| "mro TypeError = [TypeError, Exception, BaseException]"
| "mro IndexError = [IndexError, Exception, BaseException]"
| "mro FusionError = [FusionError, Exception, BaseException]"
| "mro AuthenticationError = [AuthenticationError, FusionError, Exception, BaseException]"
| "mro AuthorizationError = [AuthorizationError, FusionError, Exception, BaseException]"
| "mro RateLimitError = [RateLimitError, FusionError, Exception, BaseException]"
| "mro AgentNotFoundError = [AgentNotFoundError, FusionError, Exception, BaseException]"
| "mro ChatNotFoundError = [ChatNotFoundError, FusionError, Exception, BaseException]"
| "mro ValidationError = [ValidationError, FusionError, Exception, BaseException]"
| "mro NetworkError = [NetworkError, FusionError, Exception, BaseException]"
| "mro ServerError = [ServerError, FusionError, Exception, BaseException]"
| "mro TimeoutError = [TimeoutError, FusionError, Exception, BaseException]"
| "mro FileTooLargeError = [FileTooLargeError, ValidationError, FusionError, Exception, BaseException]"
| "mro UnsupportedFileTypeError = [UnsupportedFileTypeError, ValidationError, FusionError, Exception, BaseException]"

definition issubclass :: "exc_class \<Rightarrow> exc_class \<Rightarrow> bool" where
  "issubclass c d = (d \<in> set (mro c))"

text \<open>An exception object: its class, its message and, for \<open>FusionError\<close>s, the status code.\<close>

record py_exc =
  exc_type :: exc_class
  exc_message :: string
  status_code :: "int option"

definition isinstance :: "py_exc \<Rightarrow> exc_class \<Rightarrow> bool" where
  "isinstance e c = issubclass (exc_type e) c"

text \<open>\<^verbatim>\<open>except exceptions as e\<close> with a tuple of classes.\<close>

definition isinstance_any :: "py_exc \<Rightarrow> exc_class list \<Rightarrow> bool" where
  "isinstance_any e cs = (\<exists>c \<in> set cs. isinstance e c)"

text \<open>\<^verbatim>\<open>Exception(msg)\<close>.\<close>

definition mk_Exception :: "string \<Rightarrow> py_exc" where
  "mk_Exception m = \<lparr>exc_type = Exception, exc_message = m, status_code = None\<rparr>"

subsection \<open>\<^verbatim>\<open>StreamBuffer\<close> (\<^verbatim>\<open>utils/streaming.py\<close>)\<close>

text \<open>
  The \<^verbatim>\<open>asyncio.Queue(maxsize)\<close> is the list of the queued items, oldest first. A queue
  with \<^verbatim>\<open>maxsize <= 0\<close> is unbounded; \<^verbatim>\<open>Queue.put\<close> on a full queue suspends the caller.
\<close>

record 'a StreamBuffer =
  sb_max_size :: int
  sb_buffer :: "'a list"
  sb_closed :: bool

definition StreamBuffer_init :: "int \<Rightarrow> 'a StreamBuffer" where
  "StreamBuffer_init max_size = \<lparr>sb_max_size = max_size, sb_buffer = [], sb_closed = False\<rparr>"

definition sb_size :: "'a StreamBuffer \<Rightarrow> nat" where
  "sb_size b = length (sb_buffer b)"

definition is_full :: "'a StreamBuffer \<Rightarrow> bool" where
  "is_full b = (0 < sb_max_size b \<and> sb_max_size b \<le> int (sb_size b))"

text \<open>\<^verbatim>\<open>Queue.put\<close>: \<open>None\<close> when the caller is suspended on a full queue.\<close>

definition queue_put :: "'a StreamBuffer \<Rightarrow> 'a \<Rightarrow> 'a StreamBuffer option" where
  "queue_put b item =
     (if is_full b then None else Some (b\<lparr>sb_buffer := sb_buffer b @ [item]\<rparr>))"

definition sb_put :: "'a StreamBuffer \<Rightarrow> 'a \<Rightarrow> 'a StreamBuffer option" where
  "sb_put b item = (if \<not> sb_closed b then queue_put b item else Some b)"

definition sb_close :: "'a StreamBuffer \<Rightarrow> 'a StreamBuffer" where
  "sb_close b = b\<lparr>sb_closed := True\<rparr>"

text \<open>\<^verbatim>\<open>Queue.get\<close>: \<open>None\<close> when the caller is suspended on an empty queue.\<close>

definition sb_get :: "'a StreamBuffer \<Rightarrow> ('a \<times> 'a StreamBuffer) option" where
  "sb_get b =
     (case sb_buffer b of
        [] \<Rightarrow> None
      | x # xs \<Rightarrow> Some (x, b\<lparr>sb_buffer := xs\<rparr>))"

text \<open>A run of \<^verbatim>\<open>put\<close> calls, each awaited before the next.\<close>

fun sb_put_all :: "'a StreamBuffer \<Rightarrow> 'a list \<Rightarrow> 'a StreamBuffer option" where
  "sb_put_all b [] = Some b"
| "sb_put_all b (x # xs) =
     (case sb_put b x of None \<Rightarrow> None | Some b' \<Rightarrow> sb_put_all b' xs)"

subsection \<open>\<^verbatim>\<open>with_retry\<close> (\<^verbatim>\<open>utils/retry.py\<close>)\<close>

text \<open>
  The decorated operation is a state transformer on a world \<open>'w\<close>: it returns a value
  (\<open>Inr\<close>) or raises (\<open>Inl\<close>). The values of \<^verbatim>\<open>random.random()\<close> are the function
  \<open>rand\<close> of the attempt that draws them. Besides the outcome (\<open>Inr None\<close> is the
  \<^verbatim>\<open>None\<close> of a wrapper that falls off its end), a run records the result of each
  invocation of the operation, in order, and the delays it slept. \<^verbatim>\<open>async_wrapper\<close> and
  \<^verbatim>\<open>sync_wrapper\<close> have the same body up to the sleep primitive.
\<close>

record retry_config =
  max_attempts :: int
  backoff_factor :: real
  max_backoff :: real
  exceptions :: "exc_class list"
  jitter :: bool


record ('a, 'w) retry_run =
  outcome :: "py_exc + 'a option"
  world :: 'w
  attempts :: "(py_exc + 'a) list"
  sleeps :: "real list"

definition backoff_time :: "retry_config \<Rightarrow> (nat \<Rightarrow> real) \<Rightarrow> nat \<Rightarrow> real" where
  "backoff_time cfg rand attempt =
     (let b = min (backoff_factor cfg * 2 ^ attempt) (max_backoff cfg)
      in if jitter cfg then b * (0.5 + rand attempt * 0.5) else b)"

function retry_loop ::
  "retry_config \<Rightarrow> (nat \<Rightarrow> real) \<Rightarrow> ('w \<Rightarrow> (py_exc + 'a) \<times> 'w) \<Rightarrow> nat \<Rightarrow> py_exc option \<Rightarrow>
     'w \<Rightarrow> (py_exc + 'a) list \<Rightarrow> real list \<Rightarrow> ('a, 'w) retry_run" where
  "retry_loop cfg rand func attempt last_exception w tr sl =
     (if int attempt < max_attempts cfg then
        (case func w of
           (Inr v, w') \<Rightarrow>
             \<lparr>outcome = Inr (Some v), world = w', attempts = tr @ [Inr v], sleeps = sl\<rparr>
         | (Inl e, w') \<Rightarrow>
             if isinstance_any e (exceptions cfg) then
               if int attempt = max_attempts cfg - 1 then
                 \<lparr>outcome = Inl e, world = w', attempts = tr @ [Inl e], sleeps = sl\<rparr>
               else
                 retry_loop cfg rand func (Suc attempt) (Some e) w' (tr @ [Inl e])
                   (sl @ [backoff_time cfg rand attempt])
             else \<lparr>outcome = Inl e, world = w', attempts = tr @ [Inl e], sleeps = sl\<rparr>)
      else
        (case last_exception of
           Some e \<Rightarrow> \<lparr>outcome = Inl e, world = w, attempts = tr, sleeps = sl\<rparr>
         | None \<Rightarrow> \<lparr>outcome = Inr None, world = w, attempts = tr, sleeps = sl\<rparr>))"
  by pat_completeness auto
termination
  by (relation "measure (\<lambda>(cfg, rand, func, attempt, last, w, tr, sl). nat (max_attempts cfg - int attempt))")
     auto


definition sync_wrapper ::
  "retry_config \<Rightarrow> (nat \<Rightarrow> real) \<Rightarrow> ('w \<Rightarrow> (py_exc + 'a) \<times> 'w) \<Rightarrow> 'w \<Rightarrow> ('a, 'w) retry_run" where
  "sync_wrapper cfg rand func w = retry_loop cfg rand func 0 None w [] []"


text \<open>
  A test operation in the style of \<^verbatim>\<open>tests/unit/test_utils.py\<close>: it counts its calls in
  the world and always raises an exception of the given class.
\<close>

definition failing_op :: "exc_class \<Rightarrow> nat \<Rightarrow> (py_exc + unit) \<times> nat" where
  "failing_op c n = (Inl \<lparr>exc_type = c, exc_message = ''boom'', status_code = None\<rparr>, Suc n)"

declare retry_loop.simps [simp del]

subsection \<open>\<^verbatim>\<open>CircuitBreaker\<close> (\<^verbatim>\<open>utils/retry.py\<close>)\<close>

datatype cb_state = Closed | Open | HalfOpen

record CircuitBreaker =
  threshold :: int
  timeout :: real
  recovery_timeout :: real
  failure_count :: int
  last_failure_time :: "real option"
  state :: cb_state

definition CircuitBreaker_init :: "int \<Rightarrow> real \<Rightarrow> real \<Rightarrow> CircuitBreaker" where
  "CircuitBreaker_init th tmo rec_tmo =
     \<lparr>threshold = th, timeout = tmo, recovery_timeout = rec_tmo,
      failure_count = 0, last_failure_time = None, state = Closed\<rparr>"

text \<open>
  \<^verbatim>\<open>self.last_failure_time and now - self.last_failure_time > self.timeout\<close>: the first
  operand is false for \<^verbatim>\<open>None\<close> and also for the float \<^verbatim>\<open>0.0\<close>.
\<close>

definition timeout_elapsed :: "CircuitBreaker \<Rightarrow> real \<Rightarrow> bool" where
  "timeout_elapsed cb now =
     (case last_failure_time cb of
        None \<Rightarrow> False
      | Some t \<Rightarrow> t \<noteq> 0 \<and> now - t > timeout cb)"

definition can_execute :: "CircuitBreaker \<Rightarrow> real \<Rightarrow> bool \<times> CircuitBreaker" where
  "can_execute cb now =
     (case state cb of
        Closed \<Rightarrow> (True, cb)
      | Open \<Rightarrow>
          if timeout_elapsed cb now then (True, cb\<lparr>state := HalfOpen\<rparr>) else (False, cb)
      | HalfOpen \<Rightarrow> (True, cb))"

definition record_success :: "CircuitBreaker \<Rightarrow> CircuitBreaker" where
  "record_success cb = cb\<lparr>failure_count := 0, state := Closed, last_failure_time := None\<rparr>"

definition record_failure :: "CircuitBreaker \<Rightarrow> real \<Rightarrow> CircuitBreaker" where
  "record_failure cb now =
     (let cb' = cb\<lparr>failure_count := failure_count cb + 1, last_failure_time := Some now\<rparr>
      in if failure_count cb' \<ge> threshold cb' then cb'\<lparr>state := Open\<rparr> else cb')"

text \<open>
  \<^verbatim>\<open>execute\<close>: \<open>now\<close> is the clock read by \<^verbatim>\<open>can_execute\<close>, \<open>now'\<close> the clock read by
  \<^verbatim>\<open>record_failure\<close> if the operation fails. \<^verbatim>\<open>except Exception\<close> does not catch an
  error that is only a \<open>BaseException\<close>: it passes through and nothing is recorded.
\<close>

definition execute ::
  "CircuitBreaker \<Rightarrow> real \<Rightarrow> real \<Rightarrow> ('w \<Rightarrow> (py_exc + 'a) \<times> 'w) \<Rightarrow> 'w \<Rightarrow>
     (py_exc + 'a) \<times> CircuitBreaker \<times> 'w" where
  "execute cb now now' func w =
     (case can_execute cb now of
        (False, cb1) \<Rightarrow> (Inl (mk_Exception ''Circuit breaker is open''), cb1, w)
      | (True, cb1) \<Rightarrow>
          (case func w of
             (Inr result, w') \<Rightarrow> (Inr result, record_success cb1, w')
           | (Inl e, w') \<Rightarrow>
               if isinstance e Exception then (Inl e, record_failure cb1 now', w')
               else (Inl e, cb1, w')))"

text \<open>Consecutive recorded failures, at the given clock readings.\<close>

definition record_failures :: "CircuitBreaker \<Rightarrow> real list \<Rightarrow> CircuitBreaker" where
  "record_failures cb ts = foldl record_failure cb ts"

text \<open>The error kinds of the taxonomy: every \<open>FusionError\<close> class of \<^verbatim>\<open>core/exceptions.py\<close>.\<close>

definition taxonomy_kinds :: "exc_class list" where
  "taxonomy_kinds =
     [FusionError, AuthenticationError, AuthorizationError, RateLimitError,
      AgentNotFoundError, ChatNotFoundError, ValidationError, NetworkError, ServerError,
      TimeoutError, FileTooLargeError, UnsupportedFileTypeError]"

text \<open>A test operation that counts its calls in the world and returns.\<close>

definition succeeding_op :: "nat \<Rightarrow> (py_exc + unit) \<times> nat" where
  "succeeding_op n = (Inr (), Suc n)"

subsection \<open>\<^verbatim>\<open>FusionCache\<close> (\<^verbatim>\<open>utils/cache.py\<close>)\<close>

text \<open>
  \<open>cache\<close> is \<^verbatim>\<open>_cache\<close> (key to value and time stored), \<open>access_times\<close> is
  \<^verbatim>\<open>_access_times\<close>. \<^verbatim>\<open>get\<close> returns the stored value itself and \<^verbatim>\<open>None\<close> for an absent
  key; the model returns \<open>Some value\<close> and \<open>None\<close>. The lock serialises the operations,
  so each is one step on the state.
\<close>

record 'v FusionCache =
  ttl :: real
  max_size :: int
  cache :: "(string \<times> ('v \<times> real)) list"
  access_times :: "(string \<times> real) list"



text \<open>\<^verbatim>\<open>self._cache.pop(key, None); self._access_times.pop(key, None)\<close>.\<close>

definition pop_key :: "string \<Rightarrow> 'v FusionCache \<Rightarrow> 'v FusionCache" where
  "pop_key key c =
     c\<lparr>cache := AList.delete key (cache c), access_times := AList.delete key (access_times c)\<rparr>"

definition evict_expired :: "'v FusionCache \<Rightarrow> real \<Rightarrow> 'v FusionCache" where
  "evict_expired c current_time =
     (let expired_keys =
            map fst (filter (\<lambda>(key, (_, timestamp)). current_time - timestamp > ttl c) (cache c))
      in fold pop_key expired_keys c)"

text \<open>
  \<^verbatim>\<open>min(keys, key=...)\<close> returns the first key, in iteration order, among those of least
  access time: the candidate is replaced only by a strictly smaller one.
\<close>

fun min_by_time :: "string \<times> real \<Rightarrow> (string \<times> real) list \<Rightarrow> string \<times> real" where
  "min_by_time best [] = best"
| "min_by_time best (p # ps) = min_by_time (if snd p < snd best then p else best) ps"

definition evict_lru :: "'v FusionCache \<Rightarrow> 'v FusionCache" where
  "evict_lru c =
     (case access_times c of
        [] \<Rightarrow> c
      | p # ps \<Rightarrow> pop_key (fst (min_by_time p ps)) c)"




definition invalidate :: "'v FusionCache \<Rightarrow> string \<Rightarrow> bool \<times> 'v FusionCache" where
  "invalidate c key =
     (if key \<in> fst ` set (cache c) then (True, pop_key key c) else (False, c))"

definition clear :: "'v FusionCache \<Rightarrow> 'v FusionCache" where
  "clear c = c\<lparr>cache := [], access_times := []\<rparr>"







subsection \<open>Cache keys (\<^verbatim>\<open>FusionCache._generate_key\<close>)\<close>

text \<open>\<^verbatim>\<open>sep.join(parts)\<close>.\<close>

fun str_join :: "string \<Rightarrow> string list \<Rightarrow> string" where
  "str_join sep [] = []"
| "str_join sep [x] = x"
| "str_join sep (x # y # ys) = x @ sep @ str_join sep (y # ys)"

text \<open>
  \<^verbatim>\<open>json.dumps(params, sort_keys=True, default=str)\<close> on a dictionary with string keys:
  the items sorted by key, each rendered as key, colon, value, joined by commas between
  braces. The JSON text of a key (\<open>enc_key\<close>) and of a value (\<open>enc_val\<close>, itself produced
  with \<^verbatim>\<open>sort_keys\<close> and \<^verbatim>\<open>default=str\<close>) are the library's and are parameters here.
\<close>

definition json_dumps ::
  "(string \<Rightarrow> string) \<Rightarrow> ('v \<Rightarrow> string) \<Rightarrow> (string \<times> 'v) list \<Rightarrow> string" where
  "json_dumps enc_key enc_val params =
     ''{'' @ str_join '', '' (map (\<lambda>(k, v). enc_key k @ '': '' @ enc_val v) (sort_key fst params))
       @ ''}''"

text \<open>\<^verbatim>\<open>params or {}\<close>: \<^verbatim>\<open>None\<close> and the empty dictionary are both false.\<close>

definition params_or_empty :: "(string \<times> 'v) list option \<Rightarrow> (string \<times> 'v) list" where
  "params_or_empty params =
     (case params of None \<Rightarrow> [] | Some p \<Rightarrow> if p = [] then [] else p)"

text \<open>
  \<open>md5_hexdigest\<close> is \<^verbatim>\<open>hashlib.md5(data.encode()).hexdigest()\<close>, a parameter as well.
\<close>

definition generate_key ::
  "(string \<Rightarrow> string) \<Rightarrow> (string \<Rightarrow> string) \<Rightarrow> ('v \<Rightarrow> string) \<Rightarrow>
     string \<Rightarrow> string \<Rightarrow> (string \<times> 'v) list option \<Rightarrow> string" where
  "generate_key md5_hexdigest enc_key enc_val method url params =
     md5_hexdigest
       (method @ '':'' @ url @ '':'' @ json_dumps enc_key enc_val (params_or_empty params))"

subsection \<open>Strings and bytes\<close>

text \<open>
  \<^verbatim>\<open>chunk.decode('utf-8')\<close>: the strict decoder accepts exactly the well-formed byte
  sequences (no overlong forms, no surrogates, nothing above U+10FFFF) and otherwise
  raises \<^verbatim>\<open>UnicodeDecodeError\<close>. \<open>cont\<close> is a continuation byte.
\<close>

definition cont :: "nat \<Rightarrow> bool" where
  "cont b = (0x80 \<le> b \<and> b \<le> 0xBF)"

fun utf8_valid :: "nat list \<Rightarrow> bool" where
  "utf8_valid [] = True"
| "utf8_valid (b # bs) =
     (if b < 0x80 then utf8_valid bs
      else if 0xC2 \<le> b \<and> b \<le> 0xDF then
        (case bs of c1 # r \<Rightarrow> cont c1 \<and> utf8_valid r | _ \<Rightarrow> False)
      else if 0xE0 \<le> b \<and> b \<le> 0xEF then
        (case bs of
           c1 # c2 # r \<Rightarrow>
             cont c1 \<and> cont c2 \<and> (b = 0xE0 \<longrightarrow> 0xA0 \<le> c1) \<and> (b = 0xED \<longrightarrow> c1 \<le> 0x9F)
             \<and> utf8_valid r
         | _ \<Rightarrow> False)
      else if 0xF0 \<le> b \<and> b \<le> 0xF4 then
        (case bs of
           c1 # c2 # c3 # r \<Rightarrow>
             cont c1 \<and> cont c2 \<and> cont c3 \<and> (b = 0xF0 \<longrightarrow> 0x90 \<le> c1)
             \<and> (b = 0xF4 \<longrightarrow> c1 \<le> 0x8F) \<and> utf8_valid r
         | _ \<Rightarrow> False)
      else False)"

definition decode :: "string \<Rightarrow> string option" where
  "decode chunk = (if utf8_valid (map of_char chunk) then Some chunk else None)"

text \<open>
  The characters that \<^verbatim>\<open>str.strip()\<close> removes (those with \<^verbatim>\<open>str.isspace()\<close>), each as
  its UTF-8 bytes: U+0009 to U+000D, U+001C to U+0020, U+0085, U+00A0, U+1680, U+2000 to
  U+200A, U+2028, U+2029, U+202F, U+205F, U+3000.
\<close>

definition py_whitespace :: "string list" where
  "py_whitespace =
     [ [CHR 0x09], [CHR 0x0A], [CHR 0x0B], [CHR 0x0C], [CHR 0x0D],
      [CHR 0x1C], [CHR 0x1D], [CHR 0x1E], [CHR 0x1F], [CHR 0x20],
      [CHR 0xC2, CHR 0x85], [CHR 0xC2, CHR 0xA0], [CHR 0xE1, CHR 0x9A, CHR 0x80],
      [CHR 0xE2, CHR 0x80, CHR 0x80], [CHR 0xE2, CHR 0x80, CHR 0x81],
      [CHR 0xE2, CHR 0x80, CHR 0x82], [CHR 0xE2, CHR 0x80, CHR 0x83],
      [CHR 0xE2, CHR 0x80, CHR 0x84], [CHR 0xE2, CHR 0x80, CHR 0x85],
      [CHR 0xE2, CHR 0x80, CHR 0x86], [CHR 0xE2, CHR 0x80, CHR 0x87],
      [CHR 0xE2, CHR 0x80, CHR 0x88], [CHR 0xE2, CHR 0x80, CHR 0x89],
      [CHR 0xE2, CHR 0x80, CHR 0x8A], [CHR 0xE2, CHR 0x80, CHR 0xA8],
      [CHR 0xE2, CHR 0x80, CHR 0xA9], [CHR 0xE2, CHR 0x80, CHR 0xAF],
      [CHR 0xE2, CHR 0x81, CHR 0x9F], [CHR 0xE3, CHR 0x80, CHR 0x80]]"

text \<open>Remove leading occurrences of the given non-empty strings, as long as one is there.\<close>

function strip_leading :: "string list \<Rightarrow> string \<Rightarrow> string" where
  "strip_leading ws s =
     (case find (\<lambda>w. w \<noteq> [] \<and> prefix w s) ws of
        None \<Rightarrow> s
      | Some w \<Rightarrow> strip_leading ws (drop (length w) s))"
  by pat_completeness auto
termination
proof (relation "measure (\<lambda>(ws, s). length s)")
  show "wf (measure (\<lambda>(ws, s). length s))" by simp
next
  fix ws :: "string list" and s w :: string
  assume "find (\<lambda>w. w \<noteq> [] \<and> prefix w s) ws = Some w"
  then have "w \<noteq> [] \<and> prefix w s" by (auto simp: find_Some_iff)
  then have "w \<noteq> []" and "length w \<le> length s" by (auto simp: prefix_length_le)
  then show "((ws, drop (length w) s), (ws, s)) \<in> measure (\<lambda>(ws, s). length s)"
    by (cases w) auto
qed

definition lstrip :: "string \<Rightarrow> string" where
  "lstrip s = strip_leading py_whitespace s"

definition rstrip :: "string \<Rightarrow> string" where
  "rstrip s = rev (strip_leading (map rev py_whitespace) (rev s))"

definition strip :: "string \<Rightarrow> string" where
  "strip s = lstrip (rstrip s)"

text \<open>\<^verbatim>\<open>line.rstrip('\r')\<close>.\<close>

definition rstrip_cr :: "string \<Rightarrow> string" where
  "rstrip_cr s = rev (dropWhile (\<lambda>c. c = CHR 0x0D) (rev s))"

definition startswith :: "string \<Rightarrow> string \<Rightarrow> bool" where
  "startswith s pre = prefix pre s"

subsection \<open>\<^verbatim>\<open>StreamingParser\<close> and \<^verbatim>\<open>TokenStreamer\<close> (\<^verbatim>\<open>utils/streaming.py\<close>)\<close>

text \<open>The values that \<^verbatim>\<open>json.loads\<close> returns.\<close>

datatype json =
    JNull
  | JBool bool
  | JInt int
  | JFloat real
  | JStr string
  | JList "json list"
  | JDict "(string \<times> json) list"

text \<open>
  The event dictionaries \<^verbatim>\<open>{"type": "data", "data": ...}\<close>, \<^verbatim>\<open>{"type": "event", ...}\<close>,
  \<^verbatim>\<open>{"type": "id", ...}\<close>, \<^verbatim>\<open>{"type": "retry", ...}\<close> and \<^verbatim>\<open>{"type": "done"}\<close>.
\<close>

datatype sse_event = Data json | Event string | Id string | Retry int | Done

text \<open>
  \<^verbatim>\<open>_parse_event_line\<close>. The library functions are parameters: \<open>json_loads\<close> is
  \<^verbatim>\<open>json.loads\<close>, with \<open>None\<close> for \<^verbatim>\<open>JSONDecodeError\<close>, and \<open>py_int\<close> is \<^verbatim>\<open>int\<close>, with
  \<open>None\<close> for \<^verbatim>\<open>ValueError\<close>.
\<close>

definition parse_event_line ::
  "(string \<Rightarrow> json option) \<Rightarrow> (string \<Rightarrow> int option) \<Rightarrow> string \<Rightarrow> sse_event option" where
  "parse_event_line json_loads py_int line =
     (if startswith line ''data: '' then
        (let data = drop 6 line in
         if strip data = ''[DONE]'' then Some Done
         else
           (case json_loads data of
              Some parsed_data \<Rightarrow> Some (Data parsed_data)
            | None \<Rightarrow> Some (Data (JStr data))))
      else if startswith line ''event: '' then Some (Event (drop 7 line))
      else if startswith line ''id: '' then Some (Id (drop 4 line))
      else if startswith line ''retry: '' then
        (case py_int (drop 7 line) of
           Some retry_ms \<Rightarrow> Some (Retry retry_ms)
         | None \<Rightarrow> None)
      else None)"

text \<open>
  The loop \<^verbatim>\<open>while '\n' in self.buffer\<close> of \<^verbatim>\<open>parse_stream\<close>: the events of the complete
  lines of the buffer, in order, and the text after the last newline.
\<close>

function process_lines ::
  "(string \<Rightarrow> json option) \<Rightarrow> (string \<Rightarrow> int option) \<Rightarrow> string \<Rightarrow> sse_event list \<times> string" where
  "process_lines json_loads py_int buffer =
     (if CHR 0x0A \<in> set buffer then
        (let line = takeWhile (\<lambda>c. c \<noteq> CHR 0x0A) buffer;
             rest = drop (Suc (length line)) buffer;
             line' = rstrip_cr line
         in case process_lines json_loads py_int rest of
              (events, buffer') \<Rightarrow>
                (if line' = [] then events
                 else (case parse_event_line json_loads py_int line' of
                         Some event \<Rightarrow> event # events
                       | None \<Rightarrow> events),
                 buffer'))
      else ([], buffer))"
  by pat_completeness auto
termination
proof (relation "measure (\<lambda>(json_loads, py_int, buffer). length buffer)")
  show "wf (measure (\<lambda>(json_loads, py_int, buffer). length buffer))" by simp
next
  fix json_loads :: "string \<Rightarrow> json option" and py_int :: "string \<Rightarrow> int option"
    and buffer line :: string and rest :: string
  assume "CHR 0x0A \<in> set buffer" and "line = takeWhile (\<lambda>c. c \<noteq> CHR 0x0A) buffer"
    and "rest = drop (Suc (length line)) buffer"
  then have "0 < length buffer" and "length rest = length buffer - Suc (length line)"
    by (auto dest: length_pos_if_in_set)
  then show "((json_loads, py_int, rest), (json_loads, py_int, buffer))
      \<in> measure (\<lambda>(json_loads, py_int, buffer). length buffer)"
    by simp
qed

text \<open>
  \<^verbatim>\<open>parse_stream\<close> on the chunks of a response, from the given buffer: all the events it
  yields and the buffer it ends with. A chunk that does not decode is skipped.
\<close>

fun parse_stream ::
  "(string \<Rightarrow> json option) \<Rightarrow> (string \<Rightarrow> int option) \<Rightarrow> string \<Rightarrow> string list \<Rightarrow>
     sse_event list \<times> string" where
  "parse_stream json_loads py_int buffer [] = ([], buffer)"
| "parse_stream json_loads py_int buffer (chunk # chunks) =
     (case decode chunk of
        None \<Rightarrow> parse_stream json_loads py_int buffer chunks
      | Some chunk_str \<Rightarrow>
          (case process_lines json_loads py_int (buffer @ chunk_str) of
             (events, buffer') \<Rightarrow>
               (case parse_stream json_loads py_int buffer' chunks of
                  (events', buffer'') \<Rightarrow> (events @ events', buffer''))))"

text \<open>
  \<^verbatim>\<open>_extract_token\<close>; \<open>JNull\<close> is \<^verbatim>\<open>None\<close>. The loop over \<^verbatim>\<open>token_fields\<close> returns at the
  first field whose value is a string, or a dictionary with a \<^verbatim>\<open>content\<close> entry.
\<close>

definition token_fields :: "string list" where
  "token_fields = [''token'', ''content'', ''text'', ''delta'', ''message'']"

fun probe_fields :: "(string \<times> json) list \<Rightarrow> string list \<Rightarrow> json" where
  "probe_fields data [] = JNull"
| "probe_fields data (field # others) =
     (case map_of data field of
        None \<Rightarrow> probe_fields data others
      | Some (JStr token_data) \<Rightarrow> JStr token_data
      | Some (JDict token_data) \<Rightarrow>
          (case map_of token_data ''content'' of
             Some content \<Rightarrow> content
           | None \<Rightarrow> probe_fields data others)
      | Some _ \<Rightarrow> probe_fields data others)"

fun extract_token :: "json \<Rightarrow> json" where
  "extract_token (JDict data) = probe_fields data token_fields"
| "extract_token (JStr data) = JStr data"
| "extract_token _ = JNull"

text \<open>The truth value of a JSON value in \<^verbatim>\<open>if token:\<close>.\<close>

fun truthy :: "json \<Rightarrow> bool" where
  "truthy JNull = False"
| "truthy (JBool b) = b"
| "truthy (JInt i) = (i \<noteq> 0)"
| "truthy (JFloat x) = (x \<noteq> 0)"
| "truthy (JStr s) = (s \<noteq> [])"
| "truthy (JList xs) = (xs \<noteq> [])"
| "truthy (JDict d) = (d \<noteq> [])"

record TokenStreamer =
  tokens_received :: nat
  total_response :: string

definition TokenStreamer_init :: TokenStreamer where
  "TokenStreamer_init = \<lparr>tokens_received = 0, total_response = []\<rparr>"

text \<open>
  The loop of \<^verbatim>\<open>stream_tokens\<close> over the events of the parser: the tokens yielded, the
  error raised if any, and the counters at the end. A \<open>Done\<close> event ends the loop.
  \<^verbatim>\<open>self.total_response += token\<close> raises \<^verbatim>\<open>TypeError\<close> for a token that is not a string.
\<close>

fun stream_tokens_loop ::
  "TokenStreamer \<Rightarrow> sse_event list \<Rightarrow> string list \<times> py_exc option \<times> TokenStreamer" where
  "stream_tokens_loop st [] = ([], None, st)"
| "stream_tokens_loop st (Done # events) = ([], None, st)"
| "stream_tokens_loop st (Data data # events) =
     (let token = extract_token data in
      if truthy token then
        (case token of
           JStr tok \<Rightarrow>
             (case stream_tokens_loop
                     (st\<lparr>tokens_received := tokens_received st + 1,
                         total_response := total_response st @ tok\<rparr>) events of
                (tokens, err, st') \<Rightarrow> (tok # tokens, err, st'))
         | _ \<Rightarrow>
             ([], Some \<lparr>exc_type = TypeError,
                       exc_message = ''can only concatenate str to str'',
                       status_code = None\<rparr>,
              st\<lparr>tokens_received := tokens_received st + 1\<rparr>))
      else stream_tokens_loop st events)"
| "stream_tokens_loop st (_ # events) = stream_tokens_loop st events"

text \<open>\<^verbatim>\<open>stream_tokens\<close> with a new parser (empty buffer) on the chunks of a response.\<close>

definition stream_tokens ::
  "(string \<Rightarrow> json option) \<Rightarrow> (string \<Rightarrow> int option) \<Rightarrow> TokenStreamer \<Rightarrow> string list \<Rightarrow>
     string list \<times> py_exc option \<times> TokenStreamer" where
  "stream_tokens json_loads py_int st chunks =
     stream_tokens_loop st (fst (parse_stream json_loads py_int [] chunks))"

text \<open>
  The input of the partial-line scenario: \<^verbatim>\<open>data: {"token": "Hello"}\<close> and two newlines;
  and a stand-in for \<^verbatim>\<open>json.loads\<close> that decodes its payload and rejects anything else.
\<close>

definition sse_hello :: string where
  "sse_hello = ''data: {\"token\": \"Hello\"}'' @ [CHR 0x0A, CHR 0x0A]"

definition hello_loads :: "string \<Rightarrow> json option" where
  "hello_loads s =
     (if s = ''{\"token\": \"Hello\"}'' then Some (JDict [(''token'', JStr ''Hello'')]) else None)"

declare process_lines.simps [simp del]
declare strip_leading.simps [simp del]

subsection \<open>\<^verbatim>\<open>RateLimiter\<close> (\<^verbatim>\<open>utils/retry.py\<close>)\<close>

text \<open>\<open>calls\<close> is the deque of recorded call times, oldest (leftmost) first.\<close>

record RateLimiter =
  max_calls :: int
  window :: real
  calls :: "real list"

definition RateLimiter_init :: "int \<Rightarrow> real \<Rightarrow> RateLimiter" where
  "RateLimiter_init mc w = \<lparr>max_calls = mc, window = w, calls = []\<rparr>"

text \<open>\<^verbatim>\<open>while self.calls and now - self.calls[0] > self.window: self.calls.popleft()\<close>.\<close>

definition remove_expired :: "RateLimiter \<Rightarrow> real \<Rightarrow> RateLimiter" where
  "remove_expired rl now = rl\<lparr>calls := dropWhile (\<lambda>c. now - c > window rl) (calls rl)\<rparr>"

text \<open>
  \<^verbatim>\<open>acquire\<close>. The list holds the clock readings of the successive invocations: the first
  is read by this invocation, the rest by the invocations made after sleeping. The result
  is \<open>None\<close> when the readings run out while the caller is still waiting, \<open>Inl\<close> for the
  \<^verbatim>\<open>IndexError\<close> of \<^verbatim>\<open>self.calls[0]\<close> on an empty deque, and otherwise the limiter on return
  with the delays slept, in order.
\<close>

fun acquire :: "RateLimiter \<Rightarrow> real list \<Rightarrow> (py_exc + RateLimiter \<times> real list) option" where
  "acquire rl [] = None"
| "acquire rl (now # later) =
     (let rl' = remove_expired rl now in
      if int (length (calls rl')) \<ge> max_calls rl' then
        (case calls rl' of
           [] \<Rightarrow> Some (Inl \<lparr>exc_type = IndexError, exc_message = ''deque index out of range'',
                            status_code = None\<rparr>)
         | oldest # _ \<Rightarrow>
             (let sleep_time = window rl' - (now - oldest) + 0.1 in
              if sleep_time > 0 then
                (case acquire rl' later of
                   None \<Rightarrow> None
                 | Some (Inl e) \<Rightarrow> Some (Inl e)
                 | Some (Inr (rl'', slept)) \<Rightarrow> Some (Inr (rl'', sleep_time # slept)))
              else Some (Inr (rl'\<lparr>calls := calls rl' @ [now]\<rparr>, []))))
      else Some (Inr (rl'\<lparr>calls := calls rl' @ [now]\<rparr>, [])))"

definition can_proceed :: "RateLimiter \<Rightarrow> real \<Rightarrow> bool \<times> RateLimiter" where
  "can_proceed rl now =
     (let rl' = remove_expired rl now in (int (length (calls rl')) < max_calls rl', rl'))"

text \<open>\<^verbatim>\<open>time_until_available\<close>: \<open>now\<close> is read by \<^verbatim>\<open>can_proceed\<close>, \<open>now'\<close> after it.\<close>

definition time_until_available :: "RateLimiter \<Rightarrow> real \<Rightarrow> real \<Rightarrow> real \<times> RateLimiter" where
  "time_until_available rl now now' =
     (case can_proceed rl now of
        (True, rl') \<Rightarrow> (0, rl')
      | (False, rl') \<Rightarrow>
          (let oldest_call = (case calls rl' of [] \<Rightarrow> now' | c # _ \<Rightarrow> c)
           in (max 0 (window rl' - (now' - oldest_call)), rl')))"

text \<open>The operations of a limiter, each with the clock readings it makes, and runs of them.\<close>

datatype rl_op = Acquire "real list" | CanProceed real | TimeUntilAvailable real real

fun rl_step :: "RateLimiter \<Rightarrow> rl_op \<Rightarrow> RateLimiter option" where
  "rl_step rl (Acquire readings) =
     (case acquire rl readings of Some (Inr (rl', slept)) \<Rightarrow> Some rl' | _ \<Rightarrow> None)"
| "rl_step rl (CanProceed now) = Some (snd (can_proceed rl now))"
| "rl_step rl (TimeUntilAvailable now now') = Some (snd (time_until_available rl now now'))"

fun rl_run :: "RateLimiter \<Rightarrow> rl_op list \<Rightarrow> RateLimiter option" where
  "rl_run rl [] = Some rl"
| "rl_run rl (op # ops) =
     (case rl_step rl op of None \<Rightarrow> None | Some rl' \<Rightarrow> rl_run rl' ops)"

text \<open>The recorded calls within the trailing window at an observation time.\<close>

definition calls_in_window :: "RateLimiter \<Rightarrow> real \<Rightarrow> real list" where
  "calls_in_window rl now = filter (\<lambda>c. now - c \<le> window rl) (calls rl)"

text \<open>
  The clock honours the sleeps of \<^verbatim>\<open>acquire\<close>: whenever an invocation sleeps, the next
  reading is at least the reading before the sleep plus the time slept.
\<close>

fun sleeps_honoured :: "RateLimiter \<Rightarrow> real list \<Rightarrow> bool" where
  "sleeps_honoured rl [] = True"
| "sleeps_honoured rl [now] = True"
| "sleeps_honoured rl (now # next # later) =
     (let rl' = remove_expired rl now in
      if int (length (calls rl')) \<ge> max_calls rl' then
        (case calls rl' of
           [] \<Rightarrow> True
         | oldest # _ \<Rightarrow>
             now + (window rl' - (now - oldest) + 0.1) \<le> next
             \<and> sleeps_honoured rl' (next # later))
      else True)"

section \<open>Theorems\<close>

subsection \<open>StreamBuffer\<close>

lemma sb_put_all_closed: "sb_closed b \<Longrightarrow> sb_put_all b xs = Some b"
  by (induction xs) (simp_all add: sb_put_def)

text \<open>
  C10. Once \<^verbatim>\<open>close()\<close> has been called, every later \<^verbatim>\<open>put(item)\<close> returns at once,
  raises nothing and leaves the buffer as it was: the queue, its size and the closed flag
  are unchanged, whatever the item and however many puts follow. This holds also when the
  buffer is full, where a put on the buffer before the close suspends the caller.
\<close>

theorem C10_put_after_close_discards:
  "sb_put (sb_close b) item = Some (sb_close b)
   \<and> sb_put_all (sb_close b) items = Some (sb_close b)
   \<and> sb_buffer (sb_close b) = sb_buffer b
   \<and> sb_size (sb_close b) = sb_size b
   \<and> (is_full b \<and> \<not> sb_closed b \<longrightarrow> sb_put b item = None)"
  by (simp add: sb_put_all_closed sb_put_def sb_close_def sb_size_def queue_put_def is_full_def)

theorem C10_put_after_close_discards_witness:
  "sb_put (sb_close \<lparr>sb_max_size = 1, sb_buffer = [7::nat], sb_closed = False\<rparr>) 8
     = Some \<lparr>sb_max_size = 1, sb_buffer = [7], sb_closed = True\<rparr>
   \<and> sb_put \<lparr>sb_max_size = 1, sb_buffer = [7::nat], sb_closed = False\<rparr> 8 = None"
  using C10_put_after_close_discards
    [of "\<lparr>sb_max_size = 1, sb_buffer = [7::nat], sb_closed = False\<rparr>" 8 "[]"]
  by (simp add: sb_close_def is_full_def sb_size_def)

subsection \<open>Retry\<close>








subsection \<open>Circuit breaker\<close>

lemma record_failure_fields:
  "threshold (record_failure cb t) = threshold cb"
  "timeout (record_failure cb t) = timeout cb"
  "failure_count (record_failure cb t) = failure_count cb + 1"
  "last_failure_time (record_failure cb t) = Some t"
  by (simp_all add: record_failure_def Let_def)

lemma record_failure_state:
  "state (record_failure cb t) =
     (if failure_count cb + 1 \<ge> threshold cb then Open else state cb)"
  by (simp add: record_failure_def Let_def)

lemma record_failures_snoc:
  "record_failures cb (ts @ [t]) = record_failure (record_failures cb ts) t"
  by (simp add: record_failures_def)

lemma record_failures_fields:
  "threshold (record_failures cb ts) = threshold cb"
  "timeout (record_failures cb ts) = timeout cb"
  "failure_count (record_failures cb ts) = failure_count cb + int (length ts)"
  by (induction ts rule: rev_induct) (simp_all add: record_failures_snoc record_failure_fields, simp_all add: record_failures_def)

lemma record_failures_open:
  assumes "ts \<noteq> []" and "threshold cb \<le> failure_count cb + int (length ts)"
  shows "state (record_failures cb ts) = Open
         \<and> last_failure_time (record_failures cb ts) = Some (last ts)"
proof -
  obtain us t where ts: "ts = us @ [t]" using assms(1) by (metis rev_exhaust)
  show ?thesis
    using assms(2) unfolding ts record_failures_snoc
    by (simp add: record_failure_state record_failure_fields record_failures_fields)
qed

text \<open>In the closed state a failing call is invoked and recorded as a failure.\<close>

lemma execute_closed_failure:
  assumes "state cb = Closed" and "func w = (Inl e, w')" and "isinstance e Exception"
  shows "execute cb now now' func w = (Inl e, record_failure cb now', w')"
  using assms by (simp add: execute_def can_execute_def)

text \<open>
  C2 (as amended: \<open>threshold \<ge> 1\<close>, and the clock reading of the last failure is not
  \<open>0\<close>). From a closed breaker, after \<open>threshold\<close> consecutive recorded failures the state
  is \<open>Open\<close> and the failure timer holds the time of the last one. While
  \<open>now - last_failure_time \<le> timeout\<close>, \<^verbatim>\<open>execute\<close> raises the circuit-open error, leaves
  the breaker as it is and does not invoke the operation (the world is untouched, whatever
  the operation). Once \<open>now - last_failure_time > timeout\<close>, \<^verbatim>\<open>execute\<close> invokes the
  operation: if it returns, the state is \<open>Closed\<close> with \<open>failure_count = 0\<close>; if it raises
  an \<open>Exception\<close>, the state is \<open>Open\<close> again and the failure timer is the clock reading
  of that failure.
\<close>

theorem C2_circuit_breaker_cycle:
  assumes closed: "state cb = Closed"
    and count: "0 \<le> failure_count cb"
    and thr: "1 \<le> threshold cb"
    and len: "int (length ts) = threshold cb"
    and clock: "last ts \<noteq> 0"
  shows "state (record_failures cb ts) = Open
       \<and> last_failure_time (record_failures cb ts) = Some (last ts)
       \<and> (now - last ts \<le> timeout cb \<longrightarrow>
            execute (record_failures cb ts) now now' func w
              = (Inl (mk_Exception ''Circuit breaker is open''), record_failures cb ts, w))
       \<and> (now - last ts > timeout cb \<longrightarrow>
            (\<forall>v w'. func w = (Inr v, w') \<longrightarrow>
               (\<exists>cb'. execute (record_failures cb ts) now now' func w = (Inr v, cb', w')
                     \<and> state cb' = Closed \<and> failure_count cb' = 0))
          \<and> (\<forall>e w'. func w = (Inl e, w') \<and> isinstance e Exception \<longrightarrow>
               (\<exists>cb'. execute (record_failures cb ts) now now' func w = (Inl e, cb', w')
                     \<and> state cb' = Open \<and> last_failure_time cb' = Some now')))"
proof -
  let ?o = "record_failures cb ts"
  have ne: "ts \<noteq> []" using thr len by auto
  have ge: "threshold cb \<le> failure_count cb + int (length ts)" using count len by simp
  have op: "state ?o = Open" and lf: "last_failure_time ?o = Some (last ts)"
    using record_failures_open[OF ne ge] by simp_all
  have fc: "threshold ?o \<le> failure_count ?o"
    using ge by (simp add: record_failures_fields)
  have tm: "timeout ?o = timeout cb" by (simp add: record_failures_fields)
  have rej: "now - last ts \<le> timeout cb \<Longrightarrow>
      execute ?o now now' func w = (Inl (mk_Exception ''Circuit breaker is open''), ?o, w)"
    by (simp add: execute_def can_execute_def op timeout_elapsed_def lf tm)
  have probe: "now - last ts > timeout cb \<Longrightarrow> can_execute ?o now = (True, ?o\<lparr>state := HalfOpen\<rparr>)"
    using clock by (simp add: can_execute_def op timeout_elapsed_def lf tm)
  have succ: "now - last ts > timeout cb \<Longrightarrow> func w = (Inr v, w') \<Longrightarrow>
      \<exists>cb'. execute ?o now now' func w = (Inr v, cb', w') \<and> state cb' = Closed \<and> failure_count cb' = 0"
    for v w'
    by (simp add: execute_def probe record_success_def)
  have fail: "now - last ts > timeout cb \<Longrightarrow> func w = (Inl e, w') \<and> isinstance e Exception \<Longrightarrow>
      \<exists>cb'. execute ?o now now' func w = (Inl e, cb', w') \<and> state cb' = Open \<and> last_failure_time cb' = Some now'"
    for e w'
    using fc by (simp add: execute_def probe record_failure_def Let_def)
  show ?thesis using op lf rej succ fail by blast
qed

text \<open>
  The claim without the two provisos fails. With \<open>threshold = 0\<close> a fresh breaker after
  \<open>threshold\<close> (that is, no) recorded failures is still \<open>Closed\<close>. And a breaker opened by
  a failure recorded at clock reading \<open>0.0\<close> rejects a call made \<open>100\<close> seconds later
  with \<open>timeout = 60\<close>, since \<^verbatim>\<open>self.last_failure_time and ...\<close> takes \<open>0.0\<close> for false.
\<close>

theorem C2_counterexample:
  "state (record_failures (CircuitBreaker_init 0 60 30) []) = Closed
   \<and> execute (record_failures (CircuitBreaker_init 1 60 30) [0]) 100 100 succeeding_op 0
       = (Inl (mk_Exception ''Circuit breaker is open''),
          record_failures (CircuitBreaker_init 1 60 30) [0], 0)"
  by (simp add: record_failures_def CircuitBreaker_init_def record_failure_def Let_def
      execute_def can_execute_def timeout_elapsed_def)

text \<open>The C2 theorem at \<open>threshold = 2\<close>, \<open>timeout = 60\<close>, failures at times \<open>1\<close> and \<open>2\<close>.\<close>

theorem C2_witness:
  "state (CircuitBreaker_init 2 60 30) = Closed
   \<and> 0 \<le> failure_count (CircuitBreaker_init 2 60 30)
   \<and> 1 \<le> threshold (CircuitBreaker_init 2 60 30)
   \<and> int (length [1, 2 :: real]) = threshold (CircuitBreaker_init 2 60 30)
   \<and> last [1, 2 :: real] \<noteq> 0
   \<and> state (record_failures (CircuitBreaker_init 2 60 30) [1, 2]) = Open
   \<and> (10::real) - last [1, 2] \<le> timeout (CircuitBreaker_init 2 60 30)
   \<and> execute (record_failures (CircuitBreaker_init 2 60 30) [1, 2]) 10 11 succeeding_op 0
       = (Inl (mk_Exception ''Circuit breaker is open''),
          record_failures (CircuitBreaker_init 2 60 30) [1, 2], 0)
   \<and> (100::real) - last [1, 2] > timeout (CircuitBreaker_init 2 60 30)
   \<and> succeeding_op 0 = (Inr (), 1)
   \<and> (\<exists>cb'. execute (record_failures (CircuitBreaker_init 2 60 30) [1, 2]) 100 101 succeeding_op 0
              = (Inr (), cb', 1) \<and> state cb' = Closed \<and> failure_count cb' = 0)
   \<and> isinstance \<lparr>exc_type = ValueError, exc_message = ''boom'', status_code = None\<rparr> Exception
   \<and> (\<exists>cb'. execute (record_failures (CircuitBreaker_init 2 60 30) [1, 2]) 100 101
                (failing_op ValueError) 0
              = (Inl \<lparr>exc_type = ValueError, exc_message = ''boom'', status_code = None\<rparr>, cb', 1)
            \<and> state cb' = Open \<and> last_failure_time cb' = Some 101)"
proof -
  let ?cb = "CircuitBreaker_init 2 60 30"
  have h1: "state ?cb = Closed" and h2: "0 \<le> failure_count ?cb" and h3: "1 \<le> threshold ?cb"
    and h4: "int (length [1, 2 :: real]) = threshold ?cb" and h5: "last [1, 2 :: real] \<noteq> 0"
    by (simp_all add: CircuitBreaker_init_def)
  have t1: "(10::real) - last [1, 2] \<le> timeout ?cb"
    and t2: "(100::real) - last [1, 2] > timeout ?cb"
    by (simp_all add: CircuitBreaker_init_def)
  have s: "succeeding_op 0 = (Inr (), 1)" by (simp add: succeeding_op_def)
  have f: "failing_op ValueError 0
      = (Inl \<lparr>exc_type = ValueError, exc_message = ''boom'', status_code = None\<rparr>, 1)"
    by (simp add: failing_op_def)
  have i: "isinstance \<lparr>exc_type = ValueError, exc_message = ''boom'', status_code = None\<rparr> Exception"
    by (simp add: isinstance_def issubclass_def)
  note a = C2_circuit_breaker_cycle[OF h1 h2 h3 h4 h5, of 10 11 succeeding_op 0]
  note b = C2_circuit_breaker_cycle[OF h1 h2 h3 h4 h5, of 100 101 succeeding_op 0]
  note c = C2_circuit_breaker_cycle[OF h1 h2 h3 h4 h5, of 100 101 "failing_op ValueError" 0]
  have c1: "state (record_failures ?cb [1, 2]) = Open" using a by blast
  have c2: "execute (record_failures ?cb [1, 2]) 10 11 succeeding_op 0
       = (Inl (mk_Exception ''Circuit breaker is open''), record_failures ?cb [1, 2], 0)"
    using a t1 by blast
  have c3: "\<exists>cb'. execute (record_failures ?cb [1, 2]) 100 101 succeeding_op 0
              = (Inr (), cb', 1) \<and> state cb' = Closed \<and> failure_count cb' = 0"
    using b t2 s by blast
  have c4: "\<exists>cb'. execute (record_failures ?cb [1, 2]) 100 101 (failing_op ValueError) 0
              = (Inl \<lparr>exc_type = ValueError, exc_message = ''boom'', status_code = None\<rparr>, cb', 1)
            \<and> state cb' = Open \<and> last_failure_time cb' = Some 101"
    using c t2 f i by blast
  show ?thesis using h1 h2 h3 h4 h5 t1 t2 s i c1 c2 c3 c4 by blast
qed

lemma taxonomy_not_Exception:
  "k \<in> set taxonomy_kinds \<Longrightarrow> k \<notin> set (mro Exception) \<and> Exception \<in> set (mro k)"
  by (auto simp: taxonomy_kinds_def)

text \<open>
  C9 (as amended). A call rejected because the breaker is open and its time-out has not
  elapsed raises a plain built-in \<open>Exception\<close> with the message \<^verbatim>\<open>Circuit breaker is open\<close>;
  the breaker and the world stay as they are. That error is not an instance of any error
  kind of the taxonomy, and its class is none of them; but the class is not a dedicated
  one: it is a base class of every kind of the taxonomy.
\<close>

theorem C9_open_rejection_error:
  assumes "state cb = Open" and "\<not> timeout_elapsed cb now"
  shows "\<exists>e. execute cb now now' func w = (Inl e, cb, w)
           \<and> e = mk_Exception ''Circuit breaker is open''
           \<and> exc_type e = Exception
           \<and> (\<forall>k \<in> set taxonomy_kinds. \<not> isinstance e k \<and> exc_type e \<noteq> k)
           \<and> (\<forall>k \<in> set taxonomy_kinds. issubclass k (exc_type e))"
proof -
  have ex: "execute cb now now' func w = (Inl (mk_Exception ''Circuit breaker is open''), cb, w)"
    using assms by (simp add: execute_def can_execute_def)
  have ty: "exc_type (mk_Exception ''Circuit breaker is open'') = Exception"
    by (simp add: mk_Exception_def)
  have "\<forall>k \<in> set taxonomy_kinds. \<not> isinstance (mk_Exception ''Circuit breaker is open'') k
           \<and> Exception \<noteq> k \<and> issubclass k Exception"
    using taxonomy_not_Exception by (auto simp: isinstance_def issubclass_def ty)
  then show ?thesis using ex ty by auto
qed

text \<open>
  The rejection error has no type of its own: an authentication failure is an instance of
  the class of the error that an open breaker raises, so a handler for that class cannot
  tell the two apart.
\<close>

theorem C9_counterexample:
  "(case execute (record_failures (CircuitBreaker_init 1 60 30) [5]) 10 10 succeeding_op 0 of
      (Inl e, _) \<Rightarrow>
        isinstance \<lparr>exc_type = AuthenticationError, exc_message = ''Authentication failed'',
                    status_code = Some 401\<rparr> (exc_type e)
    | (Inr _, _) \<Rightarrow> False)"
  by (simp add: record_failures_def CircuitBreaker_init_def record_failure_def Let_def
      execute_def can_execute_def timeout_elapsed_def mk_Exception_def isinstance_def
      issubclass_def)

text \<open>The C9 theorem at a breaker opened at time \<open>5\<close> and called at time \<open>10\<close>.\<close>

theorem C9_witness:
  "state (record_failures (CircuitBreaker_init 1 60 30) [5]) = Open
   \<and> \<not> timeout_elapsed (record_failures (CircuitBreaker_init 1 60 30) [5]) 10
   \<and> AuthenticationError \<in> set taxonomy_kinds
   \<and> fst (execute (record_failures (CircuitBreaker_init 1 60 30) [5]) 10 10 succeeding_op 0)
       = Inl (mk_Exception ''Circuit breaker is open'')
   \<and> \<not> isinstance (mk_Exception ''Circuit breaker is open'') AuthenticationError"
proof -
  let ?cb = "record_failures (CircuitBreaker_init 1 60 30) [5]"
  have h1: "state ?cb = Open"
    by (simp add: record_failures_def CircuitBreaker_init_def record_failure_def Let_def)
  have h2: "\<not> timeout_elapsed ?cb 10"
    by (simp add: record_failures_def CircuitBreaker_init_def record_failure_def Let_def
        timeout_elapsed_def)
  have h3: "AuthenticationError \<in> set taxonomy_kinds" by (simp add: taxonomy_kinds_def)
  from C9_open_rejection_error[OF h1 h2, of 10 succeeding_op 0] h3
  have "fst (execute ?cb 10 10 succeeding_op 0) = Inl (mk_Exception ''Circuit breaker is open'')
      \<and> \<not> isinstance (mk_Exception ''Circuit breaker is open'') AuthenticationError"
    by auto
  then show ?thesis using h1 h2 h3 by blast
qed

subsection \<open>Cache\<close>

lemma pop_key_fields [simp]:
  "ttl (pop_key k c) = ttl c" "max_size (pop_key k c) = max_size c"
  "cache (pop_key k c) = AList.delete k (cache c)"
  "access_times (pop_key k c) = AList.delete k (access_times c)"
  by (simp_all add: pop_key_def)


lemma fold_pop_key_fields [simp]:
  "ttl (fold pop_key ks c) = ttl c" "max_size (fold pop_key ks c) = max_size c"
  by (induction ks arbitrary: c) simp_all


lemma evict_expired_fields [simp]:
  "ttl (evict_expired c t) = ttl c" "max_size (evict_expired c t) = max_size c"
  by (simp_all add: evict_expired_def Let_def)





lemma evict_lru_fields [simp]:
  "ttl (evict_lru c) = ttl c" "max_size (evict_lru c) = max_size c"
  by (simp_all add: evict_lru_def split: list.split)































subsection \<open>Cache keys\<close>

lemma sort_key_same_items:
  assumes "distinct (map fst p1)" and "distinct (map fst p2)" and "set p1 = set p2"
  shows "sort_key fst p1 = sort_key fst p2"
proof (rule map_sorted_distinct_set_unique[where f = fst])
  show "inj_on fst (set (sort_key fst p1) \<union> set (sort_key fst p2))"
    using assms by (simp add: distinct_map)
  show "sorted (map fst (sort_key fst p1))" "sorted (map fst (sort_key fst p2))"
    by (rule sorted_sort_key)+
  show "distinct (map fst (sort_key fst p1))"
    using assms(1) by (simp add: distinct_map)
  show "distinct (map fst (sort_key fst p2))"
    using assms(2) by (simp add: distinct_map)
  show "set (sort_key fst p1) = set (sort_key fst p2)"
    using assms(3) by simp
qed

text \<open>
  C5. For every method, url and hash, two parameter dictionaries holding the same
  key/value pairs, inserted in any order, get the same cache key; and no parameters
  (\<^verbatim>\<open>None\<close>) gets the key of the empty dictionary.
\<close>

theorem C5_key_order_independent:
  "(distinct (map fst p1) \<and> distinct (map fst p2) \<and> set p1 = set p2 \<longrightarrow>
      generate_key md5_hexdigest enc_key enc_val m u (Some p1)
        = generate_key md5_hexdigest enc_key enc_val m u (Some p2))
   \<and> generate_key md5_hexdigest enc_key enc_val m u None
        = generate_key md5_hexdigest enc_key enc_val m u (Some [])"
proof (intro conjI impI)
  assume "distinct (map fst p1) \<and> distinct (map fst p2) \<and> set p1 = set p2"
  then have "sort_key fst p1 = sort_key fst p2" by (simp add: sort_key_same_items)
  then have "json_dumps enc_key enc_val (params_or_empty (Some p1))
      = json_dumps enc_key enc_val (params_or_empty (Some p2))"
    by (simp add: json_dumps_def params_or_empty_def)
  then show "generate_key md5_hexdigest enc_key enc_val m u (Some p1)
        = generate_key md5_hexdigest enc_key enc_val m u (Some p2)"
    by (simp add: generate_key_def)
next
  show "generate_key md5_hexdigest enc_key enc_val m u None
        = generate_key md5_hexdigest enc_key enc_val m u (Some [])"
    by (simp add: generate_key_def params_or_empty_def)
qed

text \<open>
  The C5 theorem on the dictionaries of \<^verbatim>\<open>test_cache_key_order_independence\<close>, with
  quoting for the JSON text of keys and values and the identity for the hash, which
  shows the text that is hashed.
\<close>

theorem C5_witness:
  "distinct (map fst [(''a'', ''1''), (''b'', ''2'')])
   \<and> distinct (map fst [(''b'', ''2''), (''a'', ''1'')])
   \<and> set [(''a'', ''1''), (''b'', ''2'')] = set [(''b'', ''2''), (''a'', ''1'')]
   \<and> generate_key (\<lambda>s. s) (\<lambda>k. ''\"'' @ k @ ''\"'') (\<lambda>v. ''\"'' @ v @ ''\"'') ''GET'' ''/api''
        (Some [(''b'', ''2''), (''a'', ''1'')])
      = generate_key (\<lambda>s. s) (\<lambda>k. ''\"'' @ k @ ''\"'') (\<lambda>v. ''\"'' @ v @ ''\"'') ''GET'' ''/api''
        (Some [(''a'', ''1''), (''b'', ''2'')])
   \<and> generate_key (\<lambda>s. s) (\<lambda>k. ''\"'' @ k @ ''\"'') (\<lambda>v. ''\"'' @ v @ ''\"'') ''GET'' ''/api''
        (Some [(''a'', ''1''), (''b'', ''2'')])
      = ''GET:/api:{\"a\": \"1\", \"b\": \"2\"}''"
proof -
  have d1: "distinct (map fst [(''a'', ''1''), (''b'', ''2'')])"
    and d2: "distinct (map fst [(''b'', ''2''), (''a'', ''1'')])" by simp_all
  have s: "set [(''b'', ''2''), (''a'', ''1'')] = set [(''a'', ''1''), (''b'', ''2'')]"
    by (simp add: insert_commute)
  note th = C5_key_order_independent[of "[(''b'', ''2''), (''a'', ''1'')]"
      "[(''a'', ''1''), (''b'', ''2'')]" "\<lambda>s. s" "\<lambda>k. ''\"'' @ k @ ''\"''"
      "\<lambda>v. ''\"'' @ v @ ''\"''" "''GET''" "''/api''",
      THEN conjunct1, rule_format, OF conjI[OF d2 conjI[OF d1 s]]]
  have v: "generate_key (\<lambda>s. s) (\<lambda>k. ''\"'' @ k @ ''\"'') (\<lambda>v. ''\"'' @ v @ ''\"'') ''GET'' ''/api''
        (Some [(''a'', ''1''), (''b'', ''2'')])
      = ''GET:/api:{\"a\": \"1\", \"b\": \"2\"}''"
    by (simp add: generate_key_def json_dumps_def params_or_empty_def)
  show ?thesis
    by (intro conjI d1 d2 s[symmetric] th v)
qed

subsection \<open>Server-sent events\<close>




lemma utf8_valid_ascii: "\<forall>b \<in> set bs. b < 0x80 \<Longrightarrow> utf8_valid bs"
  by (induction bs) auto

lemma decode_ascii: "\<forall>c \<in> set s. (of_char c :: nat) < 0x80 \<Longrightarrow> decode s = Some s"
  by (simp add: decode_def utf8_valid_ascii)


lemma takeWhile_shorter: "x \<in> set xs \<Longrightarrow> \<not> P x \<Longrightarrow> length (takeWhile P xs) < length xs"
  by (induction xs) auto

text \<open>Feeding the loop more text after it ran is the same as running it on all the text.\<close>

lemma process_lines_append:
  "process_lines jl pint (x @ y) =
     (case process_lines jl pint x of
        (e1, r1) \<Rightarrow> (case process_lines jl pint (r1 @ y) of (e2, r2) \<Rightarrow> (e1 @ e2, r2)))"
proof (induction jl pint x rule: process_lines.induct)
  case (1 jl pint buffer)
  show ?case
  proof (cases "CHR 0x0A \<in> set buffer")
    case False
    then have "process_lines jl pint buffer = ([], buffer)"
      by (subst process_lines.simps) simp
    then show ?thesis by (simp split: prod.split)
  next
    case True
    define line where "line = takeWhile (\<lambda>c. c \<noteq> CHR 0x0A) buffer"
    define rest where "rest = drop (Suc (length line)) buffer"
    have tw: "takeWhile (\<lambda>c. c \<noteq> CHR 0x0A) (buffer @ y) = line"
      using True by (simp add: line_def takeWhile_append1)
    have "length line < length buffer"
      using True unfolding line_def by (simp add: takeWhile_shorter)
    then have dr: "drop (Suc (length line)) (buffer @ y) = rest @ y"
      by (simp add: rest_def)
    obtain e r where pr: "process_lines jl pint rest = (e, r)" by (cases "process_lines jl pint rest")
    obtain e2 r2 where pr2: "process_lines jl pint (r @ y) = (e2, r2)"
      by (cases "process_lines jl pint (r @ y)")
    have ih: "process_lines jl pint (rest @ y) = (e @ e2, r2)"
      using "1.IH"[OF True line_def rest_def refl] pr pr2 by simp
    have l: "process_lines jl pint buffer =
        (if rstrip_cr line = [] then e
         else (case parse_event_line jl pint (rstrip_cr line) of
                 Some event \<Rightarrow> event # e | None \<Rightarrow> e), r)"
      using True pr by (subst process_lines.simps) (simp add: line_def[symmetric] rest_def[symmetric])
    have "CHR 0x0A \<in> set (buffer @ y)" using True by simp
    then have r: "process_lines jl pint (buffer @ y) =
        (if rstrip_cr line = [] then e @ e2
         else (case parse_event_line jl pint (rstrip_cr line) of
                 Some event \<Rightarrow> event # e @ e2 | None \<Rightarrow> e @ e2), r2)"
      using ih by (subst process_lines.simps) (simp add: tw dr del: set_append drop_append)
    show ?thesis
      unfolding l r by (simp add: pr2 split: option.split)
  qed
qed

lemma parse_stream_split:
  assumes "decode a = Some a" and "decode b = Some b" and "decode (a @ b) = Some (a @ b)"
  shows "parse_stream jl pint buffer [a, b] = parse_stream jl pint buffer [a @ b]"
  using assms process_lines_append[of jl pint "buffer @ a" b]
  by (simp split: prod.split)

lemma stream_tokens_split_ascii:
  assumes "\<forall>c \<in> set s. (of_char c :: nat) < 0x80"
  shows "stream_tokens jl pint st [take i s, drop i s] = stream_tokens jl pint st [s]"
proof -
  have a: "decode (take i s) = Some (take i s)"
    using assms by (intro decode_ascii) (auto dest: in_set_takeD)
  have b: "decode (drop i s) = Some (drop i s)"
    using assms by (intro decode_ascii) (auto dest: in_set_dropD)
  have c: "decode (take i s @ drop i s) = Some (take i s @ drop i s)"
    using assms by (simp add: decode_ascii)
  show ?thesis
    unfolding stream_tokens_def using parse_stream_split[OF a b c, of jl pint "[]"] by simp
qed

lemma sse_hello_ascii: "\<forall>c \<in> set sse_hello. (of_char c :: nat) < 0x80"
  by (simp add: sse_hello_def)

lemma strip_hello_payload: "strip ''{\"token\": \"Hello\"}'' \<noteq> ''[DONE]''"
  by (simp add: strip_def lstrip_def rstrip_def strip_leading.simps py_whitespace_def)

lemma process_lines_hello:
  assumes "jl ''{\"token\": \"Hello\"}'' = Some (JDict [(''token'', JStr ''Hello'')])"
  shows "process_lines jl pint sse_hello = ([Data (JDict [(''token'', JStr ''Hello'')])], [])"
proof -
  have p: "parse_event_line jl pint ''data: {\"token\": \"Hello\"}''
      = Some (Data (JDict [(''token'', JStr ''Hello'')]))"
    using assms strip_hello_payload by (simp add: parse_event_line_def startswith_def)
  have e: "process_lines jl pint [] = ([], [])" by (subst process_lines.simps) simp
  have n: "process_lines jl pint [CHR 0x0A] = ([], [])"
    by (subst process_lines.simps) (simp add: e rstrip_cr_def)
  show ?thesis
    by (subst process_lines.simps) (simp add: sse_hello_def rstrip_cr_def p n)
qed

text \<open>
  C7. Feeding the bytes of \<^verbatim>\<open>data: {"token": "Hello"}\<close> followed by two newlines to the
  token streamer as the two chunks \<open>bytes[0:i]\<close> and \<open>bytes[i:]\<close> gives, for every offset
  \<open>i\<close>, the same result as feeding them as one chunk: the single token \<^verbatim>\<open>Hello\<close>, no
  error, one token counted. \<^verbatim>\<open>json.loads\<close> enters only through its value on the payload.
\<close>

theorem C7_split_anywhere:
  assumes "json_loads ''{\"token\": \"Hello\"}'' = Some (JDict [(''token'', JStr ''Hello'')])"
  shows "stream_tokens json_loads py_int TokenStreamer_init [take i sse_hello, drop i sse_hello]
           = stream_tokens json_loads py_int TokenStreamer_init [sse_hello]
       \<and> stream_tokens json_loads py_int TokenStreamer_init [sse_hello]
           = ([''Hello''], None, \<lparr>tokens_received = 1, total_response = ''Hello''\<rparr>)"
proof
  show "stream_tokens json_loads py_int TokenStreamer_init [take i sse_hello, drop i sse_hello]
           = stream_tokens json_loads py_int TokenStreamer_init [sse_hello]"
    by (rule stream_tokens_split_ascii[OF sse_hello_ascii])
next
  have d: "decode sse_hello = Some sse_hello" by (rule decode_ascii[OF sse_hello_ascii])
  have p: "parse_stream json_loads py_int [] [sse_hello]
      = ([Data (JDict [(''token'', JStr ''Hello'')])], [])"
    by (simp add: d process_lines_hello[of json_loads, OF assms])
  show "stream_tokens json_loads py_int TokenStreamer_init [sse_hello]
           = ([''Hello''], None, \<lparr>tokens_received = 1, total_response = ''Hello''\<rparr>)"
    by (simp only: stream_tokens_def p fst_conv)
       (simp add: token_fields_def TokenStreamer_init_def)
qed

text \<open>
  The C7 theorem at the split of \<^verbatim>\<open>test_streaming_parser_partial_chunks\<close>, inside the
  word \<^verbatim>\<open>token\<close> (offset \<open>11\<close>).
\<close>

theorem C7_witness:
  "hello_loads ''{\"token\": \"Hello\"}'' = Some (JDict [(''token'', JStr ''Hello'')])
   \<and> stream_tokens hello_loads (\<lambda>s. None) TokenStreamer_init
        [''data: {\"tok'', ''en\": \"Hello\"}'' @ [CHR 0x0A, CHR 0x0A]]
      = ([''Hello''], None, \<lparr>tokens_received = 1, total_response = ''Hello''\<rparr>)"
proof -
  have h: "hello_loads ''{\"token\": \"Hello\"}'' = Some (JDict [(''token'', JStr ''Hello'')])"
    by (simp add: hello_loads_def)
  have t: "take 11 sse_hello = ''data: {\"tok''"
    and d: "drop 11 sse_hello = ''en\": \"Hello\"}'' @ [CHR 0x0A, CHR 0x0A]"
    by (simp_all add: sse_hello_def)
  note th = C7_split_anywhere[of hello_loads "\<lambda>s. None" 11, OF h]
  have "stream_tokens hello_loads (\<lambda>s. None) TokenStreamer_init
        [take 11 sse_hello, drop 11 sse_hello]
      = ([''Hello''], None, \<lparr>tokens_received = 1, total_response = ''Hello''\<rparr>)"
    by (rule trans[OF th[THEN conjunct1] th[THEN conjunct2]])
  then have "stream_tokens hello_loads (\<lambda>s. None) TokenStreamer_init
        [''data: {\"tok'', ''en\": \"Hello\"}'' @ [CHR 0x0A, CHR 0x0A]]
      = ([''Hello''], None, \<lparr>tokens_received = 1, total_response = ''Hello''\<rparr>)"
    unfolding t d .
  with h show ?thesis by (rule conjI)
qed

subsection \<open>Rate limiter\<close>

lemma remove_expired_fields [simp]:
  "max_calls (remove_expired rl now) = max_calls rl"
  "window (remove_expired rl now) = window rl"
  by (simp_all add: remove_expired_def)

lemma remove_expired_drop:
  "\<exists>k. calls (remove_expired rl now) = drop k (calls rl)
       \<and> (\<forall>c \<in> set (take k (calls rl)). now - c > window rl)"
proof -
  let ?P = "\<lambda>c. now - c > window rl"
  let ?k = "length (takeWhile ?P (calls rl))"
  have "dropWhile ?P (calls rl) = drop ?k (calls rl)" by (rule dropWhile_eq_drop)
  moreover have "take ?k (calls rl) = takeWhile ?P (calls rl)"
    by (rule takeWhile_eq_take[symmetric])
  moreover have "\<forall>c \<in> set (takeWhile ?P (calls rl)). ?P c"
    by (auto dest: set_takeWhileD)
  ultimately show ?thesis by (auto simp: remove_expired_def intro!: exI[of _ ?k])
qed

lemma remove_expired_length: "length (calls (remove_expired rl now)) \<le> length (calls rl)"
  by (simp add: remove_expired_def length_dropWhile_le)

text \<open>After trimming, the oldest call is inside the window, so the sleep is positive.\<close>

lemma remove_expired_head:
  "calls (remove_expired rl now) = c # cs \<Longrightarrow> now - c \<le> window rl"
  unfolding remove_expired_def using hd_dropWhile[of "\<lambda>c. now - c > window rl" "calls rl"]
  by (cases "dropWhile (\<lambda>c. now - c > window rl) (calls rl)") auto

lemma acquire_result:
  assumes "1 \<le> max_calls rl" and "acquire rl readings = Some r"
  shows "\<exists>rl' slept now k. r = Inr (rl', slept) \<and> now \<in> set readings
           \<and> calls rl' = drop k (calls rl) @ [now]
           \<and> (\<forall>c \<in> set (take k (calls rl)). \<exists>t \<in> set readings. t - c > window rl)
           \<and> int (length (calls rl')) \<le> max_calls rl
           \<and> max_calls rl' = max_calls rl \<and> window rl' = window rl
           \<and> (\<forall>d \<in> set slept. d > 0)
           \<and> Suc (length slept) \<le> length readings
           \<and> (int (length (calls (remove_expired rl (hd readings)))) \<ge> max_calls rl
                \<longrightarrow> slept \<noteq> [])"
  using assms
proof (induction readings arbitrary: rl r)
  case Nil
  then show ?case by simp
next
  case (Cons now later)
  let ?rl = "remove_expired rl now"
  obtain k where k: "calls ?rl = drop k (calls rl)"
    and ex: "\<forall>c \<in> set (take k (calls rl)). now - c > window rl"
    using remove_expired_drop[of rl now] by blast
  show ?case
  proof (cases "int (length (calls ?rl)) \<ge> max_calls ?rl")
    case False
    then have r: "r = Inr (?rl\<lparr>calls := calls ?rl @ [now]\<rparr>, [])"
      using Cons.prems(2) by (simp add: Let_def)
    show ?thesis
      apply (rule exI[of _ "?rl\<lparr>calls := calls ?rl @ [now]\<rparr>"])
      apply (rule exI[of _ "[]"])
      apply (rule exI[of _ now])
      apply (rule exI[of _ k])
      using r k ex False by auto
  next
    case True
    then obtain oldest cs where cl: "calls ?rl = oldest # cs"
      using Cons.prems(1) by (cases "calls ?rl") auto
    have pos: "window ?rl - (now - oldest) + 0.1 > 0"
      using remove_expired_head[OF cl] by simp
    from True cl pos Cons.prems(2)
    obtain r' where a: "acquire ?rl later = Some r'"
      and rr: "r = (case r' of Inl e \<Rightarrow> Inl e
                    | Inr (rl'', slept) \<Rightarrow> Inr (rl'', (window ?rl - (now - oldest) + 0.1) # slept))"
      by (auto simp: Let_def split: option.splits sum.splits)
    have m: "1 \<le> max_calls ?rl" using Cons.prems(1) by simp
    from Cons.IH[OF m a]
    obtain rl' slept now' k' where r': "r' = Inr (rl', slept)" and mem: "now' \<in> set later"
      and c: "calls rl' = drop k' (calls ?rl) @ [now']"
      and e: "\<forall>c \<in> set (take k' (calls ?rl)). \<exists>t \<in> set later. t - c > window ?rl"
      and l: "int (length (calls rl')) \<le> max_calls ?rl"
      and f: "max_calls rl' = max_calls ?rl" "window rl' = window ?rl"
      and sp: "\<forall>d \<in> set slept. d > 0" and sl: "Suc (length slept) \<le> length later"
      by blast
    have c': "calls rl' = drop (k + k') (calls rl) @ [now']"
      using c k by (simp add: add.commute)
    have e': "\<forall>c \<in> set (take (k + k') (calls rl)). \<exists>t \<in> set (now # later). t - c > window rl"
    proof
      fix x assume "x \<in> set (take (k + k') (calls rl))"
      then have "x \<in> set (take k (calls rl)) \<or> x \<in> set (take k' (drop k (calls rl)))"
        by (simp add: take_add)
      then show "\<exists>t \<in> set (now # later). t - x > window rl"
        using ex e k by auto
    qed
    show ?thesis
      apply (rule exI[of _ rl'])
      apply (rule exI[of _ "(window ?rl - (now - oldest) + 0.1) # slept"])
      apply (rule exI[of _ now'])
      apply (rule exI[of _ "k + k'"])
      using rr r' mem c' e' l f sp sl pos by auto
  qed
qed

lemma rl_step_bound:
  assumes "1 \<le> max_calls rl" and "int (length (calls rl)) \<le> max_calls rl"
    and "rl_step rl op = Some rl'"
  shows "int (length (calls rl')) \<le> max_calls rl \<and> max_calls rl' = max_calls rl
         \<and> window rl' = window rl"
proof (cases op)
  case (Acquire readings)
  then obtain r where a: "acquire rl readings = Some r" and "(\<exists>slept. r = Inr (rl', slept))"
    using assms(3) by (auto split: option.splits sum.splits)
  with acquire_result[OF assms(1) a] show ?thesis by auto
next
  case (CanProceed now)
  then have "rl' = remove_expired rl now" using assms(3) by (simp add: can_proceed_def Let_def)
  then show ?thesis using assms(2) remove_expired_length[of rl now] by simp
next
  case (TimeUntilAvailable now now')
  then have "rl' = remove_expired rl now"
    using assms(3)
    by (auto simp: time_until_available_def can_proceed_def Let_def split: bool.splits)
  then show ?thesis using assms(2) remove_expired_length[of rl now] by simp
qed

lemma rl_run_bound:
  assumes "1 \<le> max_calls rl" and "int (length (calls rl)) \<le> max_calls rl"
    and "rl_run rl ops = Some rl'"
  shows "int (length (calls rl')) \<le> max_calls rl \<and> max_calls rl' = max_calls rl
         \<and> window rl' = window rl"
  using assms
proof (induction ops arbitrary: rl)
  case Nil
  then show ?case by simp
next
  case (Cons op ops)
  then obtain rl1 where s: "rl_step rl op = Some rl1" and r: "rl_run rl1 ops = Some rl'"
    by (auto split: option.splits)
  from rl_step_bound[OF Cons.prems(1,2) s] Cons.IH[of rl1] r Cons.prems(1)
  show ?case by auto
qed


lemma remove_expired_idem_calls:
  "calls (remove_expired rl now) = c # cs \<Longrightarrow> now' - c > window rl \<Longrightarrow>
   length (calls (remove_expired (remove_expired rl now) now')) \<le> length cs"
  by (simp add: remove_expired_def length_dropWhile_le)

text \<open>With a clock that honours the sleeps, \<^verbatim>\<open>acquire\<close> returns.\<close>

lemma acquire_returns_aux:
  assumes "1 \<le> max_calls rl" and "sleeps_honoured rl readings"
    and "length (calls (remove_expired rl (hd readings))) < length readings"
  shows "\<exists>rl' slept. acquire rl readings = Some (Inr (rl', slept))"
  using assms
proof (induction readings arbitrary: rl)
  case Nil
  then show ?case by simp
next
  case (Cons now later)
  let ?rl = "remove_expired rl now"
  show ?case
  proof (cases "int (length (calls ?rl)) \<ge> max_calls ?rl")
    case False
    then show ?thesis by (simp add: Let_def)
  next
    case True
    then obtain oldest cs where cl: "calls ?rl = oldest # cs"
      using Cons.prems(1) by (cases "calls ?rl") auto
    have pos: "window ?rl - (now - oldest) + 0.1 > 0"
      using remove_expired_head[OF cl] by simp
    from Cons.prems(3) cl obtain nxt rest where later: "later = nxt # rest"
      by (cases later) auto
    have hon: "now + (window ?rl - (now - oldest) + 0.1) \<le> nxt"
      and hon': "sleeps_honoured ?rl later"
      using Cons.prems(2) True cl by (simp_all add: later Let_def)
    have "nxt - oldest > window ?rl" using hon by simp
    then have "length (calls (remove_expired ?rl nxt)) \<le> length cs"
      using remove_expired_idem_calls[OF cl, of nxt] by simp
    then have less: "length (calls (remove_expired ?rl (hd later))) < length later"
      using Cons.prems(3) cl by (simp add: later)
    have m: "1 \<le> max_calls ?rl" using Cons.prems(1) by simp
    from Cons.IH[OF m hon' less]
    obtain rl' slept where "acquire ?rl later = Some (Inr (rl', slept))" by blast
    then show ?thesis using True cl pos by (simp add: Let_def)
  qed
qed

lemma acquire_returns:
  assumes "1 \<le> max_calls rl" and "sleeps_honoured rl readings"
    and "length (calls rl) < length readings"
  shows "\<exists>rl' slept. acquire rl readings = Some (Inr (rl', slept))"
proof -
  have "length (calls (remove_expired rl (hd readings))) < length readings"
    using assms(3) remove_expired_length[of rl "hd readings"] by simp
  then show ?thesis using acquire_returns_aux[OF assms(1,2)] by blast
qed

lemma can_proceed_result:
  "\<exists>k. snd (can_proceed rl now) = rl\<lparr>calls := drop k (calls rl)\<rparr>
       \<and> (\<forall>c \<in> set (take k (calls rl)). now - c > window rl)
       \<and> fst (can_proceed rl now) = (int (length (drop k (calls rl))) < max_calls rl)"
proof -
  obtain k where k: "calls (remove_expired rl now) = drop k (calls rl)"
    and ex: "\<forall>c \<in> set (take k (calls rl)). now - c > window rl"
    using remove_expired_drop[of rl now] by blast
  have "remove_expired rl now = rl\<lparr>calls := drop k (calls rl)\<rparr>"
    using k by (simp add: remove_expired_def)
  then show ?thesis using ex by (auto simp: can_proceed_def Let_def intro!: exI[of _ k])
qed

text \<open>
  C8. For a limiter with \<open>max_calls \<ge> 1\<close>: after any run of completed \<^verbatim>\<open>acquire\<close>,
  \<^verbatim>\<open>can_proceed\<close> and \<^verbatim>\<open>time_until_available\<close> operations on a new limiter, the deque holds
  at most \<open>max_calls\<close> times, so at most \<open>max_calls\<close> of them lie within the trailing window
  of any observation time. An \<^verbatim>\<open>acquire\<close> that completes, from any state, raises nothing,
  keeps the deque but for a prefix of calls that were outside the window at one of its
  clock readings, and appends exactly one time, one of its readings; if the deque was at
  capacity at its first reading it slept, and every sleep is positive. With a clock that
  honours the sleeps and enough readings it does complete. \<^verbatim>\<open>can_proceed\<close> only removes a
  prefix of calls outside the window.
\<close>

theorem C8_rate_window_bound:
  assumes "1 \<le> mc"
  shows "(rl_run (RateLimiter_init mc w) ops = Some rl \<longrightarrow>
            int (length (calls rl)) \<le> mc \<and> int (length (calls_in_window rl t)) \<le> mc)
       \<and> (max_calls rl0 = mc \<and> acquire rl0 readings = Some r \<longrightarrow>
            (\<exists>rl' slept now k. r = Inr (rl', slept) \<and> now \<in> set readings
               \<and> calls rl' = drop k (calls rl0) @ [now]
               \<and> (\<forall>c \<in> set (take k (calls rl0)). \<exists>t \<in> set readings. t - c > window rl0)
               \<and> int (length (calls rl')) \<le> mc
               \<and> (\<forall>d \<in> set slept. d > 0)
               \<and> (int (length (calls (remove_expired rl0 (hd readings)))) \<ge> mc
                    \<longrightarrow> slept \<noteq> [])))
       \<and> (max_calls rl0 = mc \<and> sleeps_honoured rl0 readings
            \<and> length (calls rl0) < length readings \<longrightarrow>
            (\<exists>rl' slept. acquire rl0 readings = Some (Inr (rl', slept))))
       \<and> (\<exists>k. snd (can_proceed rl0 t) = rl0\<lparr>calls := drop k (calls rl0)\<rparr>
               \<and> (\<forall>c \<in> set (take k (calls rl0)). t - c > window rl0)
               \<and> fst (can_proceed rl0 t) = (int (length (drop k (calls rl0))) < max_calls rl0))"
proof (intro conjI impI)
  assume run: "rl_run (RateLimiter_init mc w) ops = Some rl"
  have i: "1 \<le> max_calls (RateLimiter_init mc w)"
    and e: "int (length (calls (RateLimiter_init mc w))) \<le> max_calls (RateLimiter_init mc w)"
    using assms by (simp_all add: RateLimiter_init_def)
  from rl_run_bound[OF i e run]
  show l: "int (length (calls rl)) \<le> mc" by (simp add: RateLimiter_init_def)
  have "length (calls_in_window rl t) \<le> length (calls rl)"
    by (simp add: calls_in_window_def)
  then show "int (length (calls_in_window rl t)) \<le> mc" using l by simp
next
  assume a: "max_calls rl0 = mc \<and> acquire rl0 readings = Some r"
  then have m: "1 \<le> max_calls rl0" and s: "acquire rl0 readings = Some r"
    using assms by simp_all
  from acquire_result[OF m s] a
  show "\<exists>rl' slept now k. r = Inr (rl', slept) \<and> now \<in> set readings
               \<and> calls rl' = drop k (calls rl0) @ [now]
               \<and> (\<forall>c \<in> set (take k (calls rl0)). \<exists>t \<in> set readings. t - c > window rl0)
               \<and> int (length (calls rl')) \<le> mc
               \<and> (\<forall>d \<in> set slept. d > 0)
               \<and> (int (length (calls (remove_expired rl0 (hd readings)))) \<ge> mc
                    \<longrightarrow> slept \<noteq> [])"
    by blast
next
  assume a: "max_calls rl0 = mc \<and> sleeps_honoured rl0 readings
            \<and> length (calls rl0) < length readings"
  then have "1 \<le> max_calls rl0" using assms by simp
  from acquire_returns[OF this] a
  show "\<exists>rl' slept. acquire rl0 readings = Some (Inr (rl', slept))" by blast
next
  show "\<exists>k. snd (can_proceed rl0 t) = rl0\<lparr>calls := drop k (calls rl0)\<rparr>
               \<and> (\<forall>c \<in> set (take k (calls rl0)). t - c > window rl0)
               \<and> fst (can_proceed rl0 t) = (int (length (drop k (calls rl0))) < max_calls rl0)"
    by (rule can_proceed_result)
qed

text \<open>
  The C8 theorem on the limiter of \<^verbatim>\<open>test_rate_limiter_exceeds_limit\<close> (two calls per
  \<open>60\<close> seconds): calls at times \<open>0\<close> and \<open>1\<close>; the third, at time \<open>2\<close>, sleeps
  \<open>58.1\<close> seconds and is admitted at time \<open>61\<close>, when the call of time \<open>0\<close> has left the
  window.
\<close>

theorem C8_witness:
  "1 \<le> (2::int)
   \<and> rl_run (RateLimiter_init 2 60) [Acquire [0], Acquire [1], Acquire [2, 61]]
       = Some \<lparr>max_calls = 2, window = 60, calls = [1, 61]\<rparr>
   \<and> int (length (calls_in_window \<lparr>max_calls = 2, window = 60, calls = [1, 61]\<rparr> 61)) \<le> 2
   \<and> max_calls \<lparr>max_calls = 2, window = 60, calls = [0, 1]\<rparr> = 2
   \<and> acquire \<lparr>max_calls = 2, window = 60, calls = [0, 1]\<rparr> [2, 61, 200]
       = Some (Inr (\<lparr>max_calls = 2, window = 60, calls = [1, 61]\<rparr>, [581 / 10]))
   \<and> (\<exists>rl' slept now k.
          (Inr (\<lparr>max_calls = 2, window = 60, calls = [1, 61]\<rparr>, [581 / 10])
             :: py_exc + RateLimiter \<times> real list) = Inr (rl', slept)
          \<and> now \<in> set [2, 61, 200]
          \<and> calls rl' = drop k (calls \<lparr>max_calls = 2, window = 60, calls = [0, 1]\<rparr>) @ [now]
          \<and> (\<forall>c \<in> set (take k (calls \<lparr>max_calls = 2, window = 60, calls = [0, 1]\<rparr>)).
                \<exists>t \<in> set [2, 61, 200]. t - c > window \<lparr>max_calls = 2, window = 60, calls = [0, 1]\<rparr>)
          \<and> int (length (calls rl')) \<le> 2
          \<and> (\<forall>d \<in> set slept. d > 0)
          \<and> (int (length (calls (remove_expired \<lparr>max_calls = 2, window = 60, calls = [0, 1]\<rparr>
                  (hd [2, 61, 200])))) \<ge> 2 \<longrightarrow> slept \<noteq> []))
   \<and> sleeps_honoured \<lparr>max_calls = 2, window = 60, calls = [0, 1]\<rparr> [2, 61, 200]
   \<and> length (calls \<lparr>max_calls = 2, window = 60, calls = [0, 1]\<rparr>) < length [2, 61, 200 :: real]
   \<and> (\<exists>rl' slept. acquire \<lparr>max_calls = 2, window = 60, calls = [0, 1]\<rparr> [2, 61, 200]
          = Some (Inr (rl', slept)))"
proof -
  let ?before = "\<lparr>max_calls = 2, window = 60, calls = [0, 1]\<rparr>"
  let ?rl = "\<lparr>max_calls = 2, window = 60, calls = [1, 61]\<rparr>"
  let ?ops = "[Acquire [0], Acquire [1], Acquire [2, 61]]"
  have h0: "1 \<le> (2::int)" by simp
  have a0: "acquire (RateLimiter_init 2 60) [0] = Some (Inr (\<lparr>max_calls = 2, window = 60, calls = [0]\<rparr>, []))"
    by (simp add: RateLimiter_init_def remove_expired_def)
  have a1: "acquire \<lparr>max_calls = 2, window = 60, calls = [0]\<rparr> [1] = Some (Inr (?before, []))"
    by (simp add: remove_expired_def)
  have a2: "acquire ?before [2, 61] = Some (Inr (?rl, [581 / 10]))"
    by (simp add: remove_expired_def)
  have a3: "acquire ?before [2, 61, 200] = Some (Inr (?rl, [581 / 10]))"
    by (simp add: remove_expired_def)
  have run: "rl_run (RateLimiter_init 2 60) ?ops = Some ?rl"
    by (simp only: rl_run.simps rl_step.simps a0 a1 a2 option.case sum.case prod.case)
  have m: "max_calls ?before = 2" by simp
  have sh: "sleeps_honoured ?before [2, 61, 200]"
    by (simp add: remove_expired_def)
  have ln: "length (calls ?before) < length [2, 61, 200 :: real]" by simp
  note th = C8_rate_window_bound[OF h0, of 60 ?ops ?rl 61 ?before "[2, 61, 200]"
      "Inr (?rl, [581 / 10])"]
  have c1: "int (length (calls_in_window ?rl 61)) \<le> 2"
    using th[THEN conjunct1, rule_format, OF run] by (rule conjunct2)
  note c2 = th[THEN conjunct2, THEN conjunct1, rule_format, OF conjI[OF m a3]]
  have c3: "\<exists>rl' slept. acquire ?before [2, 61, 200] = Some (Inr (rl', slept))"
    by (rule th[THEN conjunct2, THEN conjunct2, THEN conjunct1, rule_format,
          OF conjI[OF m conjI[OF sh ln]]])
  show ?thesis
    by (intro conjI h0 run c1 m a3 c2 sh ln c3)
qed

end
